theory Spec2Isabelle
  imports Main "HOL-Library.Word" "HOL-Library.Sublist"
begin

unbundle bit_operations_syntax

section \<open>The analog input service of the Automation HAT\<close>

text \<open>
  A shallow embedding of \<^verbatim>\<open>src/io/analog-input.ts\<close>: the class
  \<^verbatim>\<open>AnalogInputService\<close> (the driver of the ADS1015 converter on I2C bus 1) and the
  class \<^verbatim>\<open>AnalogInput\<close> (one channel object).

  The two collaborators, the \<^verbatim>\<open>i2c-bus\<close> module and the light service, are not part
  of the file. Every call the driver makes to them is appended to a log, and what a call
  does (return or throw, the handle returned by \<^verbatim>\<open>openSync\<close>, the two bytes left in the
  buffer by \<^verbatim>\<open>readI2cBlockSync\<close>) is decided by a \<open>world\<close>, from the calls made before
  it and the call itself. The wall clock of \<^verbatim>\<open>Date.now()\<close> is part of the world too.
\<close>

subsection \<open>Values\<close>

type_synonym byte = "8 word"

text \<open>A JavaScript number on which the source uses bitwise operators: a 32-bit integer.\<close>

type_synonym int32 = "32 word"

text \<open>The bus object returned by \<^verbatim>\<open>i2c.openSync\<close>.\<close>

type_synonym handle = nat

text \<open>A thrown value: an \<^verbatim>\<open>Error\<close> object, known by its message.\<close>

datatype error = Error string

datatype call =
    OpenSync int
  | CloseSync handle
  | WriteI2cBlockSync handle int int int "byte list"
  | ReadI2cBlockSync handle int int int
  | LightOn nat
  | LightOff nat
  | LightUpdate
  | ConsoleError string error

text \<open>
  \<open>OpenSync n\<close> is \<^verbatim>\<open>i2c.openSync(n)\<close>; \<open>WriteI2cBlockSync h addr cmd len bytes\<close> and
  \<open>ReadI2cBlockSync h addr cmd len\<close> are the two block transfers on the bus \<open>h\<close>;
  \<open>LightOn k\<close> and \<open>LightOff k\<close> are \<^verbatim>\<open>lightService.analogInput\<close>\<open>k\<close>\<^verbatim>\<open>.on()\<close> and
  \<^verbatim>\<open>.off()\<close>; \<open>LightUpdate\<close> is \<^verbatim>\<open>lightService.update()\<close>; \<open>ConsoleError m e\<close> is
  \<^verbatim>\<open>console.error(m, e)\<close>.
\<close>

record world =
  throws :: "call list \<Rightarrow> call \<Rightarrow> error option"
  opened :: "call list \<Rightarrow> handle"
  buffer :: "call list \<Rightarrow> byte \<times> byte"
  now :: "nat \<Rightarrow> int"

text \<open>
  \<open>throws w past c\<close> is the value the call \<open>c\<close> throws when made after the calls \<open>past\<close>
  (\<open>None\<close>: it returns); \<open>opened w past\<close> is the bus object a returning \<^verbatim>\<open>openSync\<close>
  gives; \<open>buffer w past\<close> is the content of the 2-byte buffer after a returning
  \<^verbatim>\<open>readI2cBlockSync\<close>; \<open>now w n\<close> is the result of the \<open>n\<close>-th call of \<^verbatim>\<open>Date.now()\<close>.
\<close>

text \<open>
  A JavaScript number where the source compares it with \<^verbatim>\<open>===\<close> and prints it, the
  argument \<^verbatim>\<open>channel\<close>. \<open>SafeInteger i\<close> is the integer \<open>i\<close>, for \<open>i\<close> of magnitude below
  \<open>2 ^ 53\<close>: each of these is a number of its own, and a template literal prints it in
  plain decimal (the number \<^verbatim>\<open>-0\<close> is \<open>SafeInteger 0\<close>: it is \<^verbatim>\<open>=== 0\<close> and prints as
  \<^verbatim>\<open>0\<close>). \<open>OtherNumber t\<close> is any other number: one that is not an integer, an integer
  of larger magnitude, \<^verbatim>\<open>NaN\<close>, an infinity; \<open>t\<close> is the text that a template literal prints
  for it (\<^verbatim>\<open>4.5\<close>, \<^verbatim>\<open>1e+21\<close>, \<^verbatim>\<open>NaN\<close>), which is taken as given.
\<close>

datatype number = SafeInteger int | OtherNumber string

subsection \<open>The objects\<close>

record AnalogInput =
  channel :: number
  currentValue :: int

text \<open>
  The fields \<open>calls\<close> (the log of calls to the collaborators, oldest first) and \<open>ticks\<close>
  (how often \<^verbatim>\<open>Date.now()\<close> has been called) are not fields of the class: they are the
  state of the world, carried with the state of the service.
\<close>

record AnalogInputService =
  input1 :: AnalogInput
  input2 :: AnalogInput
  input3 :: AnalogInput
  input4 :: AnalogInput
  i2cBus :: "handle option"
  enabled :: bool
  calls :: "call list"
  ticks :: nat

definition new_AnalogInput :: "number \<Rightarrow> AnalogInput" where
  "new_AnalogInput c = \<lparr>channel = c, currentValue = 0\<rparr>"

definition new_AnalogInputService :: AnalogInputService where
  "new_AnalogInputService =
     \<lparr>input1 = new_AnalogInput (SafeInteger 0), input2 = new_AnalogInput (SafeInteger 1),
      input3 = new_AnalogInput (SafeInteger 2), input4 = new_AnalogInput (SafeInteger 3),
      i2cBus = None, enabled = False, calls = [], ticks = 0\<rparr>"

subsection \<open>Constants\<close>

definition ADS1015_REG_CONVERSION :: int where "ADS1015_REG_CONVERSION = 0x00"
definition ADS1015_REG_CONFIG :: int where "ADS1015_REG_CONFIG = 0x01"

definition ADS1015_CONFIG_OS_SINGLE :: int32 where "ADS1015_CONFIG_OS_SINGLE = 0x8000"
definition ADS1015_CONFIG_MUX_SINGLE_0 :: int32 where "ADS1015_CONFIG_MUX_SINGLE_0 = 0x4000"
definition ADS1015_CONFIG_MUX_SINGLE_1 :: int32 where "ADS1015_CONFIG_MUX_SINGLE_1 = 0x5000"
definition ADS1015_CONFIG_MUX_SINGLE_2 :: int32 where "ADS1015_CONFIG_MUX_SINGLE_2 = 0x6000"
definition ADS1015_CONFIG_MUX_SINGLE_3 :: int32 where "ADS1015_CONFIG_MUX_SINGLE_3 = 0x7000"
definition ADS1015_CONFIG_GAIN_ONE :: int32 where "ADS1015_CONFIG_GAIN_ONE = 0x0200"
definition ADS1015_CONFIG_MODE_SINGLE :: int32 where "ADS1015_CONFIG_MODE_SINGLE = 0x0100"
definition ADS1015_CONFIG_DR_1600SPS :: int32 where "ADS1015_CONFIG_DR_1600SPS = 0x0080"
definition ADS1015_CONFIG_CMODE_TRAD :: int32 where "ADS1015_CONFIG_CMODE_TRAD = 0x0000"
definition ADS1015_CONFIG_CPOL_ACTVLOW :: int32 where "ADS1015_CONFIG_CPOL_ACTVLOW = 0x0000"
definition ADS1015_CONFIG_CLAT_NONLAT :: int32 where "ADS1015_CONFIG_CLAT_NONLAT = 0x0000"
definition ADS1015_CONFIG_CQUE_NONE :: int32 where "ADS1015_CONFIG_CQUE_NONE = 0x0003"

text \<open>The field \<^verbatim>\<open>address\<close> of the service, and the two messages.\<close>

definition address :: int where "address = 0x48"

definition not_enabled :: error where
  "not_enabled = Error ''AnalogInputService is not enabled. Call enable() first.''"

text \<open>How a template literal prints a number: an integer below \<open>2 ^ 53\<close> in decimal.\<close>

fun show_nat :: "nat \<Rightarrow> string" where
  "show_nat n =
     (if n < 10 then [''0123456789'' ! n]
      else show_nat (n div 10) @ [''0123456789'' ! (n mod 10)])"

declare show_nat.simps [simp del]

definition show_int :: "int \<Rightarrow> string" where
  "show_int i = (if i < 0 then CHR ''-'' # show_nat (nat (- i)) else show_nat (nat i))"

fun toString :: "number \<Rightarrow> string" where
  "toString (SafeInteger i) = show_int i"
| "toString (OtherNumber t) = t"

definition invalid_channel :: "number \<Rightarrow> error" where
  "invalid_channel c = Error (''Invalid channel: '' @ toString c @ ''. Must be 0-3.'')"

subsection \<open>Calls to the collaborators\<close>

text \<open>
  A statement that may throw is a function from the state to the thrown value, if any,
  and the state it leaves. \<open>andThen\<close> is the semicolon: the second statement runs only
  when the first one returns. \<open>invoke\<close> is a call to a collaborator: it is logged, and
  the world says whether it throws. \<^verbatim>\<open>console.error\<close> is logged too and always returns.
\<close>

type_synonym stmt = "AnalogInputService \<Rightarrow> error option \<times> AnalogInputService"

definition invoke :: "world \<Rightarrow> call \<Rightarrow> stmt" where
  "invoke w c s = (throws w (calls s) c, s\<lparr>calls := calls s @ [c]\<rparr>)"

definition assign :: "(AnalogInputService \<Rightarrow> AnalogInputService) \<Rightarrow> stmt" where
  "assign f s = (None, f s)"

definition andThen :: "stmt \<Rightarrow> stmt \<Rightarrow> stmt" where
  "andThen p q s = (case p s of (Some e, s') \<Rightarrow> (Some e, s') | (None, s') \<Rightarrow> q s')"

subsection \<open>enable and disable\<close>

text \<open>\<^verbatim>\<open>this.i2cBus = i2c.openSync(1)\<close>: nothing is assigned when the call throws.\<close>

definition open_bus :: "world \<Rightarrow> stmt" where
  "open_bus w s =
     (case invoke w (OpenSync 1) s of
        (Some e, s') \<Rightarrow> (Some e, s')
      | (None, s') \<Rightarrow> (None, s'\<lparr>i2cBus := Some (opened w (calls s))\<rparr>))"

text \<open>The body of the \<^verbatim>\<open>try\<close> block of \<^verbatim>\<open>enable()\<close>.\<close>

definition enable_try :: "world \<Rightarrow> stmt" where
  "enable_try w =
     andThen (open_bus w)
    (andThen (assign (\<lambda>s. s\<lparr>enabled := True\<rparr>))
    (andThen (invoke w (LightOn 1))
    (andThen (invoke w (LightOn 2))
    (andThen (invoke w (LightOn 3))
             (invoke w LightUpdate)))))"

definition enable :: "world \<Rightarrow> AnalogInputService \<Rightarrow> (error + unit) \<times> AnalogInputService" where
  "enable w s =
     (if enabled s then (Inr (), s)
      else case enable_try w s of
          (None, s') \<Rightarrow> (Inr (), s')
        | (Some e, s') \<Rightarrow>
            (Inl e, s'\<lparr>calls := calls s' @
               [ConsoleError ''Failed to enable AnalogInputService:'' e]\<rparr>))"

text \<open>\<^verbatim>\<open>if (this.i2cBus) { this.i2cBus.closeSync(); this.i2cBus = undefined; }\<close>\<close>

definition close_bus :: "world \<Rightarrow> stmt" where
  "close_bus w s =
     (case i2cBus s of
        None \<Rightarrow> (None, s)
      | Some h \<Rightarrow> andThen (invoke w (CloseSync h)) (assign (\<lambda>s. s\<lparr>i2cBus := None\<rparr>)) s)"

text \<open>The body of the \<^verbatim>\<open>try\<close> block of \<^verbatim>\<open>disable()\<close>.\<close>

definition disable_try :: "world \<Rightarrow> stmt" where
  "disable_try w =
     andThen (close_bus w)
    (andThen (assign (\<lambda>s. s\<lparr>enabled := False\<rparr>))
    (andThen (invoke w (LightOff 1))
    (andThen (invoke w (LightOff 2))
    (andThen (invoke w (LightOff 3))
             (invoke w LightUpdate)))))"

definition disable :: "world \<Rightarrow> AnalogInputService \<Rightarrow> (error + unit) \<times> AnalogInputService" where
  "disable w s =
     (if \<not> enabled s then (Inr (), s)
      else case disable_try w s of
          (None, s') \<Rightarrow> (Inr (), s')
        | (Some e, s') \<Rightarrow>
            (Inr (), s'\<lparr>calls := calls s' @
               [ConsoleError ''Failed to disable AnalogInputService:'' e]\<rparr>))"

subsection \<open>readChannel\<close>

text \<open>
  The busy wait: \<open>start\<close> is the time read before the loop, \<open>n\<close> counts the calls of
  \<^verbatim>\<open>Date.now()\<close> made so far. The loop ends, with the new count, at the first reading
  that is at least \<open>delay\<close> past \<open>start\<close>; on a clock that never gets there it does not
  end, which is the value \<open>None\<close>.
\<close>

definition delay :: int where "delay = 2"

partial_function (option) busy_wait :: "(nat \<Rightarrow> int) \<Rightarrow> int \<Rightarrow> nat \<Rightarrow> nat option" where
  "busy_wait clock start n =
     (if clock n - start < delay then busy_wait clock start (Suc n) else Some (Suc n))"

declare busy_wait.simps [code]

text \<open>The \<^verbatim>\<open>switch\<close> on the channel; \<open>None\<close> is the \<^verbatim>\<open>default\<close> branch.\<close>

definition mux :: "number \<Rightarrow> int32 option" where
  "mux c =
     (if c = SafeInteger 0 then Some ADS1015_CONFIG_MUX_SINGLE_0
      else if c = SafeInteger 1 then Some ADS1015_CONFIG_MUX_SINGLE_1
      else if c = SafeInteger 2 then Some ADS1015_CONFIG_MUX_SINGLE_2
      else if c = SafeInteger 3 then Some ADS1015_CONFIG_MUX_SINGLE_3
      else None)"

definition config_flags :: int32 where
  "config_flags =
     ADS1015_CONFIG_CQUE_NONE OR ADS1015_CONFIG_CLAT_NONLAT OR ADS1015_CONFIG_CPOL_ACTVLOW OR
     ADS1015_CONFIG_CMODE_TRAD OR ADS1015_CONFIG_DR_1600SPS OR ADS1015_CONFIG_MODE_SINGLE OR
     ADS1015_CONFIG_GAIN_ONE OR ADS1015_CONFIG_OS_SINGLE"

text \<open>\<^verbatim>\<open>Buffer.from([(config >> 8) & 0xff, config & 0xff])\<close>\<close>

definition configBytes :: "int32 \<Rightarrow> byte list" where
  "configBytes config = [ucast (signed_drop_bit 8 config AND 0xff), ucast (config AND 0xff)]"

text \<open>\<^verbatim>\<open>const value = (buffer[0] << 8) | buffer[1]; return value >> 4\<close>\<close>

definition decode :: "byte \<times> byte \<Rightarrow> int" where
  "decode b =
     (let v = push_bit 8 (ucast (fst b) :: int32) OR ucast (snd b)
      in sint (signed_drop_bit 4 v))"

text \<open>The two transfers of a conversion, as \<^verbatim>\<open>readChannel\<close> makes them.\<close>

definition write_config :: "handle \<Rightarrow> int32 \<Rightarrow> call" where
  "write_config h config =
     WriteI2cBlockSync h address ADS1015_REG_CONFIG 2 (configBytes config)"

definition read_conversion :: "handle \<Rightarrow> call" where
  "read_conversion h = ReadI2cBlockSync h address ADS1015_REG_CONVERSION 2"

text \<open>
  A method that contains the busy wait returns \<open>None\<close> when the wait does not end,
  and otherwise what it returned or threw together with the state it left.
\<close>

type_synonym 'a outcome = "((error + 'a) \<times> AnalogInputService) option"

definition readChannel :: "world \<Rightarrow> number \<Rightarrow> AnalogInputService \<Rightarrow> int outcome" where
  "readChannel w c s =
     (case (enabled s, i2cBus s) of
        (True, Some h) \<Rightarrow>
          (case mux c of
             None \<Rightarrow> Some (Inl (invalid_channel c), s)
           | Some m \<Rightarrow>
               (case invoke w (write_config h (config_flags OR m)) s of
                  (Some e, s1) \<Rightarrow> Some (Inl e, s1)
                | (None, s1) \<Rightarrow>
                    (case busy_wait (now w) (now w (ticks s1)) (Suc (ticks s1)) of
                       None \<Rightarrow> None
                     | Some t \<Rightarrow>
                         (case invoke w (read_conversion h) (s1\<lparr>ticks := t\<rparr>) of
                            (Some e, s2) \<Rightarrow> Some (Inl e, s2)
                          | (None, s2) \<Rightarrow>
                              Some (Inr (decode (buffer w (calls s1))), s2)))))
      | _ \<Rightarrow> Some (Inl not_enabled, s))"

subsection \<open>The channel object and read-all\<close>

text \<open>
  \<^verbatim>\<open>AnalogInput.read()\<close>: the call of \<^verbatim>\<open>readChannel\<close> on the service, then the
  assignment to \<^verbatim>\<open>currentValue\<close>, which a throwing call does not reach.
\<close>

definition AnalogInput_read ::
  "world \<Rightarrow> AnalogInput \<Rightarrow> AnalogInputService \<Rightarrow>
     ((error + int) \<times> AnalogInput \<times> AnalogInputService) option" where
  "AnalogInput_read w a s =
     (case readChannel w (channel a) s of
        None \<Rightarrow> None
      | Some (Inl e, s') \<Rightarrow> Some (Inl e, a, s')
      | Some (Inr v, s') \<Rightarrow> Some (Inr v, a\<lparr>currentValue := v\<rparr>, s'))"

definition raw :: "AnalogInput \<Rightarrow> int" where
  "raw a = currentValue a"

text \<open>
  The getters \<^verbatim>\<open>voltage\<close> and \<^verbatim>\<open>percent\<close> compute with double-precision numbers
  (\<^verbatim>\<open>currentValue / 2047.0\<close> and two products); they are not part of this model.
\<close>

text \<open>
  A statement of \<^verbatim>\<open>read()\<close>: \<^verbatim>\<open>this.inputK.read()\<close> on the channel object held in the
  field \<open>get\<close>, which \<open>put\<close> writes back.
\<close>

definition read_input ::
  "world \<Rightarrow> (AnalogInputService \<Rightarrow> AnalogInput) \<Rightarrow>
     (AnalogInput \<Rightarrow> AnalogInputService \<Rightarrow> AnalogInputService) \<Rightarrow>
     AnalogInputService \<Rightarrow> unit outcome" where
  "read_input w get put s =
     (case AnalogInput_read w (get s) s of
        None \<Rightarrow> None
      | Some (Inl e, a, s') \<Rightarrow> Some (Inl e, put a s')
      | Some (Inr v, a, s') \<Rightarrow> Some (Inr (), put a s'))"

definition next_do :: "unit outcome \<Rightarrow> (AnalogInputService \<Rightarrow> unit outcome) \<Rightarrow> unit outcome" where
  "next_do r k =
     (case r of
        None \<Rightarrow> None
      | Some (Inl e, s) \<Rightarrow> Some (Inl e, s)
      | Some (Inr u, s) \<Rightarrow> k s)"

definition read :: "world \<Rightarrow> AnalogInputService \<Rightarrow> unit outcome" where
  "read w s =
     (if \<not> enabled s then Some (Inl not_enabled, s)
      else
        next_do (read_input w input1 (\<lambda>a s. s\<lparr>input1 := a\<rparr>) s) (\<lambda>s.
        next_do (read_input w input2 (\<lambda>a s. s\<lparr>input2 := a\<rparr>) s) (\<lambda>s.
        next_do (read_input w input3 (\<lambda>a s. s\<lparr>input3 := a\<rparr>) s) (\<lambda>s.
                 read_input w input4 (\<lambda>a s. s\<lparr>input4 := a\<rparr>) s))))"

subsection \<open>Sequences of calls, and what is counted in the log\<close>

text \<open>
  \<open>enable_times n\<close> is \<open>n\<close> calls of \<^verbatim>\<open>enable()\<close> in a row by a caller that goes
  on whatever a call returns or throws; \<open>disable_times\<close> likewise.
\<close>

fun enable_times :: "nat \<Rightarrow> world \<Rightarrow> AnalogInputService \<Rightarrow> AnalogInputService" where
  "enable_times 0 w s = s"
| "enable_times (Suc n) w s = enable_times n w (snd (enable w s))"

fun disable_times :: "nat \<Rightarrow> world \<Rightarrow> AnalogInputService \<Rightarrow> AnalogInputService" where
  "disable_times 0 w s = s"
| "disable_times (Suc n) w s = disable_times n w (snd (disable w s))"

fun is_open :: "call \<Rightarrow> bool" where
  "is_open (OpenSync n) = True"
| "is_open c = False"

fun is_close :: "call \<Rightarrow> bool" where
  "is_close (CloseSync h) = True"
| "is_close c = False"

definition opens :: "AnalogInputService \<Rightarrow> nat" where
  "opens s = length (filter is_open (calls s))"

definition closes :: "AnalogInputService \<Rightarrow> nat" where
  "closes s = length (filter is_close (calls s))"

text \<open>
  The value thrown by the first call that throws when the calls \<open>cs\<close> are made in a
  row after the calls \<open>past\<close>; \<open>None\<close> when they all return.
\<close>

fun first_throw :: "world \<Rightarrow> call list \<Rightarrow> call list \<Rightarrow> error option" where
  "first_throw w past [] = None"
| "first_throw w past (c # cs) =
     (case throws w past c of Some e \<Rightarrow> Some e | None \<Rightarrow> first_throw w (past @ [c]) cs)"

text \<open>
  The calls that are made when the calls \<open>cs\<close> are to be made in a row after the calls
  \<open>past\<close>: all of them up to the first one that throws, that one included.
\<close>

fun made :: "world \<Rightarrow> call list \<Rightarrow> call list \<Rightarrow> call list" where
  "made w past [] = []"
| "made w past (c # cs) =
     c # (case throws w past c of Some e \<Rightarrow> [] | None \<Rightarrow> made w (past @ [c]) cs)"


text \<open>
  A run that was to make the calls \<open>full\<close> after the calls \<open>past\<close> made the calls \<open>cs\<close>
  and ended in \<open>r\<close>: it made all of them and returned, or it made some of them, in
  their order, and the last one it made threw what the run throws.
\<close>

definition ran :: "world \<Rightarrow> call list \<Rightarrow> call list \<Rightarrow> error + unit \<Rightarrow> call list \<Rightarrow> bool" where
  "ran w past cs r full \<longleftrightarrow>
     prefix cs full \<and>
     (case r of
        Inr u \<Rightarrow> cs = full
      | Inl e \<Rightarrow> cs \<noteq> [] \<and> throws w (past @ butlast cs) (last cs) = Some e)"

text \<open>The four channel objects of a service are those of its constructor.\<close>

definition wired :: "AnalogInputService \<Rightarrow> bool" where
  "wired s \<longleftrightarrow>
     channel (input1 s) = SafeInteger 0 \<and> channel (input2 s) = SafeInteger 1 \<and>
     channel (input3 s) = SafeInteger 2 \<and> channel (input4 s) = SafeInteger 3"

text \<open>
  The clock gets \<open>delay\<close> past its \<open>t\<close>-th reading at some later reading, so that a
  busy wait started at the \<open>t\<close>-th reading ends.
\<close>

definition clock_advances :: "world \<Rightarrow> nat \<Rightarrow> bool" where
  "clock_advances w t \<longleftrightarrow> (\<exists>k. delay \<le> now w (Suc t + k) - now w t)"

text \<open>A transport on which no block transfer throws, under a clock that always advances.\<close>

definition transport_ok :: "world \<Rightarrow> bool" where
  "transport_ok w \<longleftrightarrow>
     (\<forall>past h a r n bs. throws w past (WriteI2cBlockSync h a r n bs) = None) \<and>
     (\<forall>past h a r n. throws w past (ReadI2cBlockSync h a r n) = None) \<and>
     (\<forall>t. clock_advances w t)"

text \<open>
  The configuration word as the specification words it, for comparison with what
  \<^verbatim>\<open>readChannel\<close> writes: the OR of the flag constants of the register map with the
  multiplexer selector \<open>0x4000 + n * 0x1000\<close> of channel \<open>n\<close>, and its two bytes, high
  byte first.
\<close>

definition spec_selector :: "int \<Rightarrow> int" where
  "spec_selector n = 0x4000 + n * 0x1000"

definition spec_config_word :: "int \<Rightarrow> 16 word" where
  "spec_config_word n =
     (0x0003 OR 0x0000 OR 0x0000 OR 0x0000 OR 0x0080 OR 0x0100 OR 0x0200 OR 0x8000) OR
     word_of_int (spec_selector n)"

definition spec_big_endian :: "16 word \<Rightarrow> byte list" where
  "spec_big_endian x = [ucast (drop_bit 8 x), ucast x]"

subsection \<open>Worlds and states to run the driver in\<close>

text \<open>
  Nothing throws, the converter answers \<open>0x7FF0\<close>, and the clock moves by one
  millisecond per reading.
\<close>

definition healthy_world :: world where
  "healthy_world =
     \<lparr>throws = (\<lambda>past c. None), opened = (\<lambda>past. 7),
      buffer = (\<lambda>past. (0x7F, 0xF0)), now = (\<lambda>n. int n)\<rparr>"

text \<open>The converter answers \<open>0xFFF0\<close>, its code for one step below zero.\<close>

definition below_zero_world :: world where
  "below_zero_world = healthy_world\<lparr>buffer := (\<lambda>past. (0xFF, 0xF0))\<rparr>"

definition open_fails_world :: world where
  "open_fails_world =
     healthy_world\<lparr>throws := (\<lambda>past c. if is_open c then Some (Error ''ENOENT'') else None)\<rparr>"

definition close_fails_world :: world where
  "close_fails_world =
     healthy_world\<lparr>throws := (\<lambda>past c. if is_close c then Some (Error ''EIO'') else None)\<rparr>"

text \<open>Every write to the bus throws.\<close>

fun is_write :: "call \<Rightarrow> bool" where
  "is_write (WriteI2cBlockSync h a r n bs) = True"
| "is_write c = False"

definition write_fails_world :: world where
  "write_fails_world =
     healthy_world\<lparr>throws := (\<lambda>past c. if is_write c then Some (Error ''EREMOTEIO'') else None)\<rparr>"

text \<open>The second indicator light throws on every call.\<close>

definition light_fails_world :: world where
  "light_fails_world =
     healthy_world\<lparr>throws := (\<lambda>past c.
        if c = LightOn 2 \<or> c = LightOff 2 then Some (Error ''light'') else None)\<rparr>"

text \<open>The fourth call made to the collaborators throws, whatever it is.\<close>

definition flaky_world :: world where
  "flaky_world =
     healthy_world\<lparr>throws := (\<lambda>past c. if length past = 3 then Some (Error ''EIO'') else None)\<rparr>"

text \<open>A service that holds the bus \<open>7\<close>.\<close>

definition enabled_service :: AnalogInputService where
  "enabled_service = new_AnalogInputService\<lparr>i2cBus := Some 7, enabled := True\<rparr>"

section \<open>Properties\<close>

lemmas ADS1015_defs =
  ADS1015_REG_CONVERSION_def ADS1015_REG_CONFIG_def ADS1015_CONFIG_OS_SINGLE_def
  ADS1015_CONFIG_MUX_SINGLE_0_def ADS1015_CONFIG_MUX_SINGLE_1_def
  ADS1015_CONFIG_MUX_SINGLE_2_def ADS1015_CONFIG_MUX_SINGLE_3_def
  ADS1015_CONFIG_GAIN_ONE_def ADS1015_CONFIG_MODE_SINGLE_def ADS1015_CONFIG_DR_1600SPS_def
  ADS1015_CONFIG_CMODE_TRAD_def ADS1015_CONFIG_CPOL_ACTVLOW_def
  ADS1015_CONFIG_CLAT_NONLAT_def ADS1015_CONFIG_CQUE_NONE_def


subsection \<open>Decoding the conversion result\<close>

lemma uint_byte_bounds: "0 \<le> uint (b::byte) \<and> uint b < 256"
  using uint_lt2p [of b] by simp

lemma uint_combine:
  "uint (push_bit 8 (ucast (hi::byte) :: int32) OR ucast (lo::byte)) = uint hi * 256 + uint lo"
proof -
  note hi = uint_byte_bounds [of hi] and lo = uint_byte_bounds [of lo]
  have a: "uint (ucast hi :: int32) = uint hi"
    by (simp add: uint_up_ucast is_up)
  have b: "uint (ucast lo :: int32) = uint lo"
    by (simp add: uint_up_ucast is_up)
  have "uint (push_bit 8 (ucast hi :: int32)) = take_bit LENGTH(32) (push_bit 8 (uint hi))"
    by (simp only: unsigned_push_bit_eq a)
  also have "\<dots> = push_bit 8 (uint hi)"
    by (rule take_bit_int_eq_self) (use hi in \<open>simp_all add: push_bit_eq_mult\<close>)
  finally have c: "uint (push_bit 8 (ucast hi :: int32)) = push_bit 8 (uint hi)" .
  have low: "take_bit 8 (uint lo) = uint lo"
    by (rule take_bit_int_eq_self) (use lo in simp_all)
  have "uint (push_bit 8 (ucast hi :: int32) OR ucast lo) = push_bit 8 (uint hi) OR uint lo"
    by (simp only: unsigned_or_eq b c)
  also have "\<dots> = take_bit 8 (uint lo) OR push_bit 8 (uint hi)"
    by (simp only: low or.commute)
  also have "\<dots> = take_bit 8 (uint lo) + push_bit 8 (uint hi)"
    using concat_bit_eq [of 8 "uint lo" "uint hi"] by (simp only: concat_bit_def)
  also have "\<dots> = uint hi * 256 + uint lo"
    by (simp only: low push_bit_eq_mult) simp
  finally show ?thesis .
qed

lemma decode_eq: "decode (hi, lo) = (uint hi * 256 + uint lo) div 16"
proof -
  let ?v = "push_bit 8 (ucast hi :: int32) OR ucast lo"
  note hi = uint_byte_bounds [of hi] and lo = uint_byte_bounds [of lo]
  have u: "uint ?v = uint hi * 256 + uint lo" by (rule uint_combine)
  have nonneg: "0 \<le> uint hi * 256 + uint lo" using hi lo by linarith
  have "- (2 ^ 31) \<le> (0::int)" by simp
  then have lower: "- (2 ^ 31) \<le> uint hi * 256 + uint lo" using nonneg by (rule order_trans)
  have "uint hi * 256 + uint lo < 65536" using hi lo by linarith
  then have upper: "uint hi * 256 + uint lo < 2 ^ 31" by simp
  have "sint ?v = signed_take_bit 31 (uint ?v)"
    by (simp add: sint_uint)
  also have "\<dots> = uint ?v"
    unfolding u using lower upper by (rule signed_take_bit_int_eq_self)
  finally have "sint ?v = uint hi * 256 + uint lo" by (simp only: u)
  then show ?thesis
    by (simp add: decode_def sint_signed_drop_bit_eq drop_bit_eq_div)
qed

lemma decode_range: "0 \<le> decode b \<and> decode b \<le> 4095"
proof -
  obtain hi lo where b: "b = (hi, lo)" by (cases b)
  note hi = uint_byte_bounds [of hi] and lo = uint_byte_bounds [of lo]
  show ?thesis unfolding b decode_eq using hi lo by linarith
qed

subsection \<open>The paths of readChannel\<close>

lemma busy_wait_terminates:
  "delay \<le> clock (n + k) - start \<Longrightarrow> \<exists>t. busy_wait clock start n = Some t"
proof (induction k arbitrary: n)
  case 0
  then show ?case by (subst busy_wait.simps) simp
next
  case (Suc k)
  then have "delay \<le> clock (Suc n + k) - start" by simp
  then obtain t where "busy_wait clock start (Suc n) = Some t"
    using Suc.IH by blast
  then show ?case by (subst busy_wait.simps) simp
qed

lemma mux_None: "i < 0 \<or> 3 < i \<Longrightarrow> mux (SafeInteger i) = None"
  by (auto simp: mux_def)

lemma mux_OtherNumber: "mux (OtherNumber t) = None"
  by (simp add: mux_def)

lemma readChannel_not_enabled:
  "\<not> enabled s \<or> i2cBus s = None \<Longrightarrow> readChannel w c s = Some (Inl not_enabled, s)"
  by (auto simp: readChannel_def split: bool.splits option.splits)

lemma readChannel_write_throws:
  assumes "enabled s" "i2cBus s = Some h" "mux c = Some m"
    and "throws w (calls s) (write_config h (config_flags OR m)) = Some e"
  shows "readChannel w c s =
           Some (Inl e, s\<lparr>calls := calls s @ [write_config h (config_flags OR m)]\<rparr>)"
  using assms by (simp add: readChannel_def invoke_def)

lemma readChannel_waits:
  assumes "enabled s" "i2cBus s = Some h" "mux c = Some m"
    and "throws w (calls s) (write_config h (config_flags OR m)) = None"
    and "busy_wait (now w) (now w (ticks s)) (Suc (ticks s)) = None"
  shows "readChannel w c s = None"
  using assms by (simp add: readChannel_def invoke_def)

lemma readChannel_read_throws:
  assumes "enabled s" "i2cBus s = Some h" "mux c = Some m"
    and "throws w (calls s) (write_config h (config_flags OR m)) = None"
    and "busy_wait (now w) (now w (ticks s)) (Suc (ticks s)) = Some t"
    and "throws w (calls s @ [write_config h (config_flags OR m)]) (read_conversion h) = Some e"
  shows "readChannel w c s =
           Some (Inl e, s\<lparr>calls := calls s @ [write_config h (config_flags OR m), read_conversion h],
                          ticks := t\<rparr>)"
  using assms by (simp add: readChannel_def invoke_def)

lemma readChannel_returns:
  assumes "enabled s" "i2cBus s = Some h" "mux c = Some m"
    and "throws w (calls s) (write_config h (config_flags OR m)) = None"
    and "busy_wait (now w) (now w (ticks s)) (Suc (ticks s)) = Some t"
    and "throws w (calls s @ [write_config h (config_flags OR m)]) (read_conversion h) = None"
  shows "readChannel w c s =
           Some (Inr (decode (buffer w (calls s @ [write_config h (config_flags OR m)]))),
                 s\<lparr>calls := calls s @ [write_config h (config_flags OR m), read_conversion h],
                   ticks := t\<rparr>)"
  using assms by (simp add: readChannel_def invoke_def)

lemma readChannel_cases:
  assumes en: "enabled s" "i2cBus s = Some h" "mux c = Some m"
    and rc: "readChannel w c s = Some (r, s')"
  shows "(\<exists>e. r = Inl e \<and> throws w (calls s) (write_config h (config_flags OR m)) = Some e \<and>
              s' = s\<lparr>calls := calls s @ [write_config h (config_flags OR m)]\<rparr>) \<or>
         (\<exists>e t. r = Inl e \<and>
              throws w (calls s @ [write_config h (config_flags OR m)]) (read_conversion h) = Some e \<and>
              s' = s\<lparr>calls := calls s @ [write_config h (config_flags OR m), read_conversion h],
                     ticks := t\<rparr>) \<or>
         (\<exists>t. r = Inr (decode (buffer w (calls s @ [write_config h (config_flags OR m)]))) \<and>
              throws w (calls s) (write_config h (config_flags OR m)) = None \<and>
              throws w (calls s @ [write_config h (config_flags OR m)]) (read_conversion h) = None \<and>
              s' = s\<lparr>calls := calls s @ [write_config h (config_flags OR m), read_conversion h],
                     ticks := t\<rparr>)"
proof (cases "throws w (calls s) (write_config h (config_flags OR m))")
  case (Some e)
  from readChannel_write_throws [OF en Some] rc Some show ?thesis by auto
next
  case None
  note wr = this
  show ?thesis
  proof (cases "busy_wait (now w) (now w (ticks s)) (Suc (ticks s))")
    case None
    from readChannel_waits [OF en wr None] rc show ?thesis by simp
  next
    case (Some t)
    note bw = this
    show ?thesis
    proof (cases "throws w (calls s @ [write_config h (config_flags OR m)]) (read_conversion h)")
      case None
      from readChannel_returns [OF en wr bw None] rc wr None show ?thesis by auto
    next
      case (Some e)
      from readChannel_read_throws [OF en wr bw Some] rc Some show ?thesis by auto
    qed
  qed
qed

subsection \<open>readChannel: the claims\<close>

lemma mux_config_word:
  assumes "0 \<le> n" "n \<le> 3"
  shows "\<exists>m. mux (SafeInteger n) = Some m \<and>
             configBytes (config_flags OR m) = spec_big_endian (spec_config_word n)"
proof -
  from assms have "n = 0 \<or> n = 1 \<or> n = 2 \<or> n = 3" by arith
  then show ?thesis
    by (elim disjE)
       (simp_all add: mux_def configBytes_def config_flags_def spec_big_endian_def spec_config_word_def
          spec_selector_def ADS1015_defs)
qed

text \<open>
  Claim C3. On an enabled service with a valid channel, when neither transfer throws and
  the busy wait ends, \<^verbatim>\<open>readChannel\<close> returns the decoded conversion result: the two
  bytes of the buffer combined big-endian into a 16-bit value, shifted right by 4. A
  result of \<open>0x7FF0\<close> decodes to 2047, \<open>0x4000\<close> to 1024 and \<open>0x2000\<close> to 512.
\<close>

theorem readChannel_decodes:
  assumes "enabled s" and "i2cBus s = Some h" and "mux c = Some m"
    and "throws w (calls s) (write_config h (config_flags OR m)) = None"
    and "clock_advances w (ticks s)"
    and "throws w (calls s @ [write_config h (config_flags OR m)]) (read_conversion h) = None"
    and "buffer w (calls s @ [write_config h (config_flags OR m)]) = (hi, lo)"
  shows "(\<exists>s'. readChannel w c s = Some (Inr (decode (hi, lo)), s')) \<and>
         decode (hi, lo) = (uint hi * 256 + uint lo) div 16 \<and>
         decode (0x7F, 0xF0) = 2047 \<and> decode (0x40, 0x00) = 1024 \<and> decode (0x20, 0x00) = 512"
proof -
  from assms(5) obtain k where "delay \<le> now w (Suc (ticks s) + k) - now w (ticks s)"
    unfolding clock_advances_def by blast
  then obtain t where "busy_wait (now w) (now w (ticks s)) (Suc (ticks s)) = Some t"
    using busy_wait_terminates by blast
  from readChannel_returns [OF assms(1-4) this assms(6)] assms(7)
  have "\<exists>s'. readChannel w c s = Some (Inr (decode (hi, lo)), s')" by simp
  moreover have "decode (0x7F, 0xF0) = 2047" "decode (0x40, 0x00) = 1024" "decode (0x20, 0x00) = 512"
    by (simp_all add: decode_def)
  ultimately show ?thesis using decode_eq by blast
qed

theorem readChannel_decodes_witness:
  "enabled enabled_service \<and> i2cBus enabled_service = Some 7 \<and>
   mux (SafeInteger 1) = Some ADS1015_CONFIG_MUX_SINGLE_1 \<and> clock_advances healthy_world 0 \<and>
   (\<exists>s'. readChannel healthy_world (SafeInteger 1) enabled_service = Some (Inr 2047, s'))"
proof -
  have clock: "clock_advances healthy_world (ticks enabled_service)"
    unfolding clock_advances_def by (rule exI [of _ 1]) (simp add: healthy_world_def delay_def)
  have m: "mux (SafeInteger 1) = Some ADS1015_CONFIG_MUX_SINGLE_1" by (simp add: mux_def)
  have e: "enabled enabled_service" "i2cBus enabled_service = Some 7"
    by (simp_all add: enabled_service_def)
  have t: "throws healthy_world past c = None" for past c by (simp add: healthy_world_def)
  have b: "buffer healthy_world past = (0x7F, 0xF0)" for past by (simp add: healthy_world_def)
  from readChannel_decodes [OF e m t clock t b] clock e m show ?thesis
    by (auto simp: enabled_service_def new_AnalogInputService_def)
qed

lemma readChannel_total:
  assumes en: "enabled s" "i2cBus s = Some h" "mux c = Some m"
    and clock: "clock_advances w (ticks s)"
  shows "\<exists>t. readChannel w c s =
           Some (case first_throw w (calls s)
                        [write_config h (config_flags OR m), read_conversion h] of
                   None \<Rightarrow> Inr (decode (buffer w (calls s @ [write_config h (config_flags OR m)])))
                 | Some e \<Rightarrow> Inl e,
                 s\<lparr>calls := calls s @ made w (calls s)
                                [write_config h (config_flags OR m), read_conversion h],
                   ticks := t\<rparr>)"
proof (cases "throws w (calls s) (write_config h (config_flags OR m))")
  case (Some e)
  from readChannel_write_throws [OF en Some] Some show ?thesis
    by (intro exI [of _ "ticks s"]) simp
next
  case wr: None
  from clock obtain k where "delay \<le> now w (Suc (ticks s) + k) - now w (ticks s)"
    unfolding clock_advances_def by blast
  then obtain t where bw: "busy_wait (now w) (now w (ticks s)) (Suc (ticks s)) = Some t"
    using busy_wait_terminates by blast
  show ?thesis
  proof (cases "throws w (calls s @ [write_config h (config_flags OR m)]) (read_conversion h)")
    case None
    from readChannel_returns [OF en wr bw None] wr None show ?thesis
      by (intro exI [of _ t]) simp
  next
    case (Some e)
    from readChannel_read_throws [OF en wr bw Some] wr Some show ?thesis
      by (intro exI [of _ t]) simp
  qed
qed

text \<open>
  Claim C4. For a valid channel \<open>n\<close> in 0..3 on an enabled service, \<^verbatim>\<open>readChannel\<close>
  first writes, to the configuration register \<open>0x01\<close> of the device \<open>0x48\<close>, the two
  bytes, high byte first, of the word that is the OR of the flag constants with the
  multiplexer selector \<open>0x4000 + n * 0x1000\<close>. When that write throws, the error is
  thrown and nothing else is called. When it returns and the busy wait ends, the read of
  the conversion register is the next and last call, and \<^verbatim>\<open>readChannel\<close> ends with what
  that read gives: its error, or the decoded value.
\<close>

theorem readChannel_writes_config:
  assumes "enabled s" and "i2cBus s = Some h" and "0 \<le> n" and "n \<le> 3"
  shows "(throws w (calls s)
            (WriteI2cBlockSync h 0x48 0x01 2 (spec_big_endian (spec_config_word n))) = Some e \<longrightarrow>
          readChannel w (SafeInteger n) s =
            Some (Inl e, s\<lparr>calls := calls s @
               [WriteI2cBlockSync h 0x48 0x01 2 (spec_big_endian (spec_config_word n))]\<rparr>)) \<and>
         (throws w (calls s)
            (WriteI2cBlockSync h 0x48 0x01 2 (spec_big_endian (spec_config_word n))) = None \<and>
          clock_advances w (ticks s) \<longrightarrow>
          (\<exists>s'. readChannel w (SafeInteger n) s =
             Some (case throws w (calls s @
                      [WriteI2cBlockSync h 0x48 0x01 2 (spec_big_endian (spec_config_word n))])
                      (ReadI2cBlockSync h 0x48 0x00 2) of
                     None \<Rightarrow> Inr (decode (buffer w (calls s @
                      [WriteI2cBlockSync h 0x48 0x01 2 (spec_big_endian (spec_config_word n))])))
                   | Some e' \<Rightarrow> Inl e', s') \<and>
             calls s' = calls s @
               [WriteI2cBlockSync h 0x48 0x01 2 (spec_big_endian (spec_config_word n)),
                ReadI2cBlockSync h 0x48 0x00 2]))"
proof -
  from mux_config_word [OF assms(3,4)] obtain m
    where m: "mux (SafeInteger n) = Some m"
      "configBytes (config_flags OR m) = spec_big_endian (spec_config_word n)"
    by blast
  have W: "write_config h (config_flags OR m) =
             WriteI2cBlockSync h 0x48 0x01 2 (spec_big_endian (spec_config_word n))"
    by (simp add: write_config_def address_def ADS1015_REG_CONFIG_def m(2))
  have R: "read_conversion h = ReadI2cBlockSync h 0x48 0x00 2"
    by (simp add: read_conversion_def address_def ADS1015_REG_CONVERSION_def)
  have a: "readChannel w (SafeInteger n) s =
      Some (Inl e, s\<lparr>calls := calls s @ [write_config h (config_flags OR m)]\<rparr>)"
    if "throws w (calls s) (write_config h (config_flags OR m)) = Some e"
    using readChannel_write_throws [OF assms(1,2) m(1) that] .
  have b: "\<exists>s'. readChannel w (SafeInteger n) s =
             Some (case throws w (calls s @ [write_config h (config_flags OR m)])
                      (read_conversion h) of
                     None \<Rightarrow> Inr (decode (buffer w (calls s @ [write_config h (config_flags OR m)])))
                   | Some e' \<Rightarrow> Inl e', s') \<and>
             calls s' = calls s @ [write_config h (config_flags OR m), read_conversion h]"
    if wr: "throws w (calls s) (write_config h (config_flags OR m)) = None"
      and clock: "clock_advances w (ticks s)"
  proof -
    from readChannel_total [OF assms(1,2) m(1) clock] obtain t where
      "readChannel w (SafeInteger n) s =
           Some (case first_throw w (calls s)
                        [write_config h (config_flags OR m), read_conversion h] of
                   None \<Rightarrow> Inr (decode (buffer w (calls s @ [write_config h (config_flags OR m)])))
                 | Some e \<Rightarrow> Inl e,
                 s\<lparr>calls := calls s @ made w (calls s)
                                [write_config h (config_flags OR m), read_conversion h],
                   ticks := t\<rparr>)" by blast
    with wr show ?thesis by (auto split: option.splits)
  qed
  from a b show ?thesis unfolding W R by blast
qed

theorem readChannel_writes_config_witness:
  "enabled enabled_service \<and> i2cBus enabled_service = Some 7 \<and>
   clock_advances healthy_world (ticks enabled_service) \<and>
   throws healthy_world (calls enabled_service)
     (WriteI2cBlockSync 7 0x48 0x01 2 (spec_big_endian (spec_config_word 2))) = None \<and>
   (\<exists>s'. readChannel healthy_world (SafeInteger 2) enabled_service = Some (Inr 2047, s') \<and>
      calls s' = [WriteI2cBlockSync 7 0x48 0x01 2 [0xE3, 0x83], ReadI2cBlockSync 7 0x48 0x00 2]) \<and>
   throws write_fails_world (calls enabled_service)
     (WriteI2cBlockSync 7 0x48 0x01 2 (spec_big_endian (spec_config_word 2)))
     = Some (Error ''EREMOTEIO'') \<and>
   readChannel write_fails_world (SafeInteger 2) enabled_service =
     Some (Inl (Error ''EREMOTEIO''),
           enabled_service\<lparr>calls := [WriteI2cBlockSync 7 0x48 0x01 2 [0xE3, 0x83]]\<rparr>) \<and>
   spec_big_endian (spec_config_word 2) = [0xE3, 0x83] \<and> spec_selector 2 = 0x6000"
proof -
  have clock: "clock_advances healthy_world (ticks enabled_service)"
    unfolding clock_advances_def by (rule exI [of _ 1]) (simp add: healthy_world_def delay_def)
  have e: "enabled enabled_service" "i2cBus enabled_service = Some 7"
    "calls enabled_service = []"
    by (simp_all add: enabled_service_def new_AnalogInputService_def)
  have t: "throws healthy_world past c = None" for past c by (simp add: healthy_world_def)
  have f: "throws write_fails_world past (WriteI2cBlockSync 7 a r n bs) = Some (Error ''EREMOTEIO'')"
    for past a r n bs by (simp add: write_fails_world_def healthy_world_def)
  have b: "buffer healthy_world past = (0x7F, 0xF0)" for past by (simp add: healthy_world_def)
  have d: "decode (0x7F, 0xF0) = 2047" by (simp add: decode_def)
  have sp: "spec_big_endian (spec_config_word 2) = [0xE3, 0x83]" "spec_selector 2 = 0x6000"
    by (simp_all add: spec_big_endian_def spec_config_word_def spec_selector_def)
  from readChannel_writes_config [OF e(1,2), of 2 healthy_world "Error ''EREMOTEIO''"]
       readChannel_writes_config [OF e(1,2), of 2 write_fails_world "Error ''EREMOTEIO''"]
       clock e t f b d sp
  show ?thesis by auto
qed

text \<open>
  Claim C8. On an enabled service, \<^verbatim>\<open>readChannel\<close> with a channel outside 0..3 throws
  the error with the message \<^verbatim>\<open>Invalid channel: N. Must be 0-3.\<close>, where \<open>N\<close> is the
  argument as a template literal prints it (in decimal for an integer below \<open>2 ^ 53\<close>),
  and leaves the state, the log of calls included, as it was: nothing is written to or
  read from the bus. Every number that is not one of 0, 1, 2, 3 is such an argument.
\<close>

theorem readChannel_invalid_channel:
  assumes "enabled s" and "i2cBus s = Some h"
  shows "(\<bar>i\<bar> < 2 ^ 53 \<and> (i < 0 \<or> 3 < i) \<longrightarrow>
            readChannel w (SafeInteger i) s =
              Some (Inl (Error (''Invalid channel: '' @ show_int i @ ''. Must be 0-3.'')), s)) \<and>
         readChannel w (OtherNumber t) s =
           Some (Inl (Error (''Invalid channel: '' @ t @ ''. Must be 0-3.'')), s)"
  using assms mux_None [of i] mux_OtherNumber [of t]
  by (auto simp: readChannel_def invalid_channel_def)

theorem readChannel_invalid_channel_witness:
  "enabled enabled_service \<and> i2cBus enabled_service = Some 7 \<and>
   readChannel healthy_world (SafeInteger 4) enabled_service =
     Some (Inl (Error ''Invalid channel: 4. Must be 0-3.''), enabled_service) \<and>
   readChannel healthy_world (SafeInteger (- 1)) enabled_service =
     Some (Inl (Error ''Invalid channel: -1. Must be 0-3.''), enabled_service) \<and>
   readChannel healthy_world (OtherNumber ''1e+21'') enabled_service =
     Some (Inl (Error ''Invalid channel: 1e+21. Must be 0-3.''), enabled_service) \<and>
   readChannel healthy_world (OtherNumber ''4.5'') enabled_service =
     Some (Inl (Error ''Invalid channel: 4.5. Must be 0-3.''), enabled_service)"
proof -
  have e: "enabled enabled_service" "i2cBus enabled_service = Some 7"
    by (simp_all add: enabled_service_def)
  from readChannel_invalid_channel [OF e, of 4 healthy_world "''1e+21''"]
       readChannel_invalid_channel [OF e, of "- 1" healthy_world "''4.5''"] e
  show ?thesis by (simp add: show_int_def show_nat.simps)
qed

subsection \<open>Statements in a row\<close>

lemmas stmt_defs = andThen_def invoke_def assign_def

lemma andThen_invoke:
  "andThen (invoke w c) q s =
     (case throws w (calls s) c of
        Some e \<Rightarrow> (Some e, s\<lparr>calls := calls s @ [c]\<rparr>)
      | None \<Rightarrow> q (s\<lparr>calls := calls s @ [c]\<rparr>))"
  by (simp add: stmt_defs split: option.splits)

lemma andThen_assign: "andThen (assign f) q s = q (f s)"
  by (simp add: stmt_defs)

text \<open>Four calls in a row: what is thrown, and what is left.\<close>

lemma invoke4:
  assumes "andThen (invoke w c1) (andThen (invoke w c2) (andThen (invoke w c3) (invoke w c4))) s
             = (r, s')"
  shows "r = first_throw w (calls s) [c1, c2, c3, c4] \<and>
         (\<exists>cs. s' = s\<lparr>calls := calls s @ cs\<rparr> \<and> cs \<noteq> [] \<and> set cs \<subseteq> {c1, c2, c3, c4})"
proof (cases "throws w (calls s) c1")
  case (Some e)
  with assms have "r = Some e" "s' = s\<lparr>calls := calls s @ [c1]\<rparr>"
    by (simp_all add: andThen_invoke)
  with Some show ?thesis by auto
next
  case n1: None
  show ?thesis
  proof (cases "throws w (calls s @ [c1]) c2")
    case (Some e)
    with assms n1 have "r = Some e" "s' = s\<lparr>calls := calls s @ [c1, c2]\<rparr>"
      by (simp_all add: andThen_invoke)
    with Some n1 show ?thesis by auto
  next
    case n2: None
    show ?thesis
    proof (cases "throws w (calls s @ [c1, c2]) c3")
      case (Some e)
      with assms n1 n2 have "r = Some e" "s' = s\<lparr>calls := calls s @ [c1, c2, c3]\<rparr>"
        by (simp_all add: andThen_invoke)
      with Some n1 n2 show ?thesis by auto
    next
      case n3: None
      with assms n1 n2 have "r = throws w (calls s @ [c1, c2, c3]) c4"
        "s' = s\<lparr>calls := calls s @ [c1, c2, c3, c4]\<rparr>"
        by (simp_all add: andThen_invoke invoke_def)
      with n1 n2 n3 show ?thesis by (auto split: option.splits)
    qed
  qed
qed


subsection \<open>enable\<close>

lemma enable_enabled: "enabled s \<Longrightarrow> enable w s = (Inr (), s)"
  by (simp add: enable_def)

lemma enable_open_throws:
  assumes "\<not> enabled s" and "throws w (calls s) (OpenSync 1) = Some e"
  shows "enable w s =
           (Inl e, s\<lparr>calls := calls s @
              [OpenSync 1, ConsoleError ''Failed to enable AnalogInputService:'' e]\<rparr>)"
  using assms by (simp add: enable_def enable_try_def open_bus_def stmt_defs)

lemma enable_try_opened:
  assumes "throws w (calls s) (OpenSync 1) = None"
  shows "enable_try w s =
           andThen (invoke w (LightOn 1)) (andThen (invoke w (LightOn 2))
             (andThen (invoke w (LightOn 3)) (invoke w LightUpdate)))
             (s\<lparr>calls := calls s @ [OpenSync 1], i2cBus := Some (opened w (calls s)),
                enabled := True\<rparr>)"
  by (simp add: enable_try_def andThen_def [of "open_bus w"] open_bus_def invoke_def assms
        andThen_assign)

lemma enable_after_open:
  assumes "\<not> enabled s" and "throws w (calls s) (OpenSync 1) = None"
  shows "\<exists>cs. snd (enable w s) =
            s\<lparr>i2cBus := Some (opened w (calls s)), enabled := True,
              calls := calls s @ OpenSync 1 # cs\<rparr> \<and>
          filter is_open cs = [] \<and> filter is_close cs = [] \<and>
          (case first_throw w (calls s @ [OpenSync 1])
                  [LightOn 1, LightOn 2, LightOn 3, LightUpdate] of
             None \<Rightarrow> fst (enable w s) = Inr ()
           | Some e \<Rightarrow> fst (enable w s) = Inl e \<and>
               last cs = ConsoleError ''Failed to enable AnalogInputService:'' e)"
proof -
  let ?s1 = "s\<lparr>calls := calls s @ [OpenSync 1], i2cBus := Some (opened w (calls s)),
                enabled := True\<rparr>"
  obtain r s2 where tr: "enable_try w s = (r, s2)" by (cases "enable_try w s")
  from invoke4 [OF tr [unfolded enable_try_opened [OF assms(2)]]] obtain cs
    where r: "r = first_throw w (calls s @ [OpenSync 1]) [LightOn 1, LightOn 2, LightOn 3, LightUpdate]"
      and s2: "s2 = ?s1\<lparr>calls := calls ?s1 @ cs\<rparr>"
      and cs: "cs \<noteq> []" "set cs \<subseteq> {LightOn 1, LightOn 2, LightOn 3, LightUpdate}"
    by auto
  from cs(2) have none: "filter is_open cs = []" "filter is_close cs = []"
    by (auto simp: filter_empty_conv)
  show ?thesis
  proof (cases r)
    case None
    with tr assms(1) s2 have "enable w s = (Inr (), ?s1\<lparr>calls := calls ?s1 @ cs\<rparr>)"
      by (simp add: enable_def)
    with none r [symmetric] None show ?thesis
      by (intro exI [of _ cs]) (simp del: first_throw.simps)
  next
    case (Some e)
    let ?log = "ConsoleError ''Failed to enable AnalogInputService:'' e"
    from Some tr assms(1) s2
    have "enable w s = (Inl e, ?s1\<lparr>calls := calls ?s1 @ cs @ [?log]\<rparr>)"
      by (simp add: enable_def)
    with none r [symmetric] Some show ?thesis
      by (intro exI [of _ "cs @ [?log]"]) (simp del: first_throw.simps)
  qed
qed

subsection \<open>disable\<close>

lemma disable_disabled: "\<not> enabled s \<Longrightarrow> disable w s = (Inr (), s)"
  by (simp add: disable_def)

lemma disable_returns: "fst (disable w s) = Inr ()"
  by (simp add: disable_def split: prod.splits option.splits)

lemma disable_logs:
  assumes "enabled s" and "fst (disable_try w s) = Some e"
  shows "last (calls (snd (disable w s))) = ConsoleError ''Failed to disable AnalogInputService:'' e"
  using assms by (cases "disable_try w s") (simp add: disable_def)

lemma disable_try_close_throws:
  assumes "i2cBus s = Some h" and "throws w (calls s) (CloseSync h) = Some e"
  shows "disable_try w s = (Some e, s\<lparr>calls := calls s @ [CloseSync h]\<rparr>)"
  using assms by (simp add: disable_try_def close_bus_def stmt_defs)

lemma disable_close_throws:
  assumes "enabled s" and "i2cBus s = Some h" and "throws w (calls s) (CloseSync h) = Some e"
  shows "disable w s =
           (Inr (), s\<lparr>calls := calls s @
              [CloseSync h, ConsoleError ''Failed to disable AnalogInputService:'' e]\<rparr>)"
  using assms(1) by (simp add: disable_def disable_try_close_throws [OF assms(2,3)])

lemma disable_try_closed:
  assumes "i2cBus s = Some h" and "throws w (calls s) (CloseSync h) = None"
  shows "disable_try w s =
           andThen (invoke w (LightOff 1)) (andThen (invoke w (LightOff 2))
             (andThen (invoke w (LightOff 3)) (invoke w LightUpdate)))
             (s\<lparr>calls := calls s @ [CloseSync h], i2cBus := None, enabled := False\<rparr>)"
  by (simp add: disable_try_def andThen_def [of "close_bus w"] close_bus_def assms
        andThen_def [of "invoke w (CloseSync h)"] invoke_def [of w "CloseSync h"] assign_def
        andThen_assign)

lemma disable_try_no_handle:
  assumes "i2cBus s = None"
  shows "disable_try w s =
           andThen (invoke w (LightOff 1)) (andThen (invoke w (LightOff 2))
             (andThen (invoke w (LightOff 3)) (invoke w LightUpdate)))
             (s\<lparr>enabled := False\<rparr>)"
  by (simp add: disable_try_def andThen_def [of "close_bus w"] close_bus_def assms
        andThen_assign)

lemma disable_after_close:
  assumes "enabled s" and "i2cBus s = Some h" and "throws w (calls s) (CloseSync h) = None"
  shows "\<exists>cs. snd (disable w s) =
            s\<lparr>i2cBus := None, enabled := False, calls := calls s @ CloseSync h # cs\<rparr> \<and>
          filter is_open cs = [] \<and> filter is_close cs = []"
proof -
  let ?s1 = "s\<lparr>calls := calls s @ [CloseSync h], i2cBus := None, enabled := False\<rparr>"
  obtain r s2 where tr: "disable_try w s = (r, s2)" by (cases "disable_try w s")
  from invoke4 [OF tr [unfolded disable_try_closed [OF assms(2,3)]]] obtain cs
    where s2: "s2 = ?s1\<lparr>calls := calls ?s1 @ cs\<rparr>"
      and cs: "set cs \<subseteq> {LightOff 1, LightOff 2, LightOff 3, LightUpdate}"
    by auto
  from cs have none: "filter is_open cs = []" "filter is_close cs = []"
    by (auto simp: filter_empty_conv)
  show ?thesis
  proof (cases r)
    case None
    with tr assms(1) s2 have "disable w s = (Inr (), ?s1\<lparr>calls := calls ?s1 @ cs\<rparr>)"
      by (simp add: disable_def)
    with none show ?thesis by (intro exI [of _ cs]) simp
  next
    case (Some e)
    let ?log = "ConsoleError ''Failed to disable AnalogInputService:'' e"
    from Some tr assms(1) s2
    have "disable w s = (Inr (), ?s1\<lparr>calls := calls ?s1 @ cs @ [?log]\<rparr>)"
      by (simp add: disable_def)
    with none show ?thesis by (intro exI [of _ "cs @ [?log]"]) simp
  qed
qed

lemma disable_without_handle:
  assumes "enabled s" and "i2cBus s = None"
  shows "\<not> enabled (snd (disable w s)) \<and> i2cBus (snd (disable w s)) = None"
proof -
  obtain r s2 where tr: "disable_try w s = (r, s2)" by (cases "disable_try w s")
  from invoke4 [OF tr [unfolded disable_try_no_handle [OF assms(2)]]] obtain cs
    where s2: "s2 = s\<lparr>enabled := False, calls := calls s @ cs\<rparr>"
    by auto
  from tr assms s2 show ?thesis
    by (cases r) (simp_all add: disable_def)
qed

subsection \<open>Repeated calls\<close>

lemma enable_times_enabled: "enabled s \<Longrightarrow> enable_times n w s = s"
  by (induction n) (simp_all add: enable_enabled)

lemma disable_times_disabled: "\<not> enabled s \<Longrightarrow> disable_times n w s = s"
  by (induction n) (simp_all add: disable_disabled)

subsection \<open>The bus handle is held exactly while the service is enabled\<close>

lemma new_AnalogInputService_handle_iff:
  "enabled new_AnalogInputService \<longleftrightarrow> i2cBus new_AnalogInputService \<noteq> None"
  by (simp add: new_AnalogInputService_def)

lemma enable_keeps_handle_iff:
  assumes "enabled s \<longleftrightarrow> i2cBus s \<noteq> None"
  shows "enabled (snd (enable w s)) \<longleftrightarrow> i2cBus (snd (enable w s)) \<noteq> None"
proof (cases "enabled s")
  case True
  with assms show ?thesis by (simp add: enable_enabled)
next
  case False
  show ?thesis
  proof (cases "throws w (calls s) (OpenSync 1)")
    case None
    from enable_after_open [OF False None] show ?thesis by auto
  next
    case (Some e)
    from enable_open_throws [OF False Some] False assms show ?thesis by simp
  qed
qed

lemma disable_keeps_handle_iff:
  assumes "enabled s \<longleftrightarrow> i2cBus s \<noteq> None"
  shows "enabled (snd (disable w s)) \<longleftrightarrow> i2cBus (snd (disable w s)) \<noteq> None"
proof (cases "enabled s")
  case False
  with assms show ?thesis by (simp add: disable_disabled)
next
  case True
  with assms obtain h where h: "i2cBus s = Some h" by auto
  show ?thesis
  proof (cases "throws w (calls s) (CloseSync h)")
    case None
    from disable_after_close [OF True h None] show ?thesis by auto
  next
    case (Some e)
    from disable_close_throws [OF True h Some] True h show ?thesis by simp
  qed
qed


subsection \<open>The steps of read-all\<close>

lemma readChannel_fields:
  assumes "readChannel w c s = Some (r, s')"
  shows "input1 s' = input1 s \<and> input2 s' = input2 s \<and> input3 s' = input3 s \<and>
         input4 s' = input4 s \<and> enabled s' = enabled s \<and> i2cBus s' = i2cBus s"
proof (cases "enabled s \<and> i2cBus s \<noteq> None")
  case False
  with readChannel_not_enabled [of s w c] assms show ?thesis by auto
next
  case True
  then obtain h where en: "enabled s" "i2cBus s = Some h" by auto
  show ?thesis
  proof (cases "mux c")
    case None
    with en assms show ?thesis by (simp add: readChannel_def)
  next
    case (Some m)
    from readChannel_cases [OF en Some assms] show ?thesis by auto
  qed
qed

lemma readChannel_ok:
  assumes "transport_ok w" and en: "enabled s" "i2cBus s = Some h" "mux c = Some m"
  shows "\<exists>t. readChannel w c s =
           Some (Inr (decode (buffer w (calls s @ [write_config h (config_flags OR m)]))),
                 s\<lparr>calls := calls s @ [write_config h (config_flags OR m), read_conversion h],
                   ticks := t\<rparr>)"
proof -
  from assms(1) have wr: "throws w past (write_config h x) = None" for past x
    by (simp add: transport_ok_def write_config_def)
  from assms(1) have rd: "throws w past (read_conversion h) = None" for past
    by (simp add: transport_ok_def read_conversion_def)
  from assms(1) obtain k where "delay \<le> now w (Suc (ticks s) + k) - now w (ticks s)"
    unfolding transport_ok_def clock_advances_def by blast
  then obtain t where "busy_wait (now w) (now w (ticks s)) (Suc (ticks s)) = Some t"
    using busy_wait_terminates by blast
  from readChannel_returns [OF en wr this rd] show ?thesis by blast
qed

lemma next_do_simps:
  "next_do None k = None"
  "next_do (Some (Inl e, s)) k = Some (Inl e, s)"
  "next_do (Some (Inr u, s)) k = k s"
  by (simp_all add: next_do_def)

lemma read_input_step:
  assumes en: "enabled s" "i2cBus s = Some h" "mux (channel (get s)) = Some m"
    and put: "\<And>a s. calls (put a s) = calls s \<and> enabled (put a s) = enabled s \<and>
                      i2cBus (put a s) = i2cBus s"
    and rd: "read_input w get put s = Some (r, s')"
  shows "enabled s' \<and> i2cBus s' = Some h \<and>
         (\<exists>cs. calls s' = calls s @ cs \<and>
            ran w (calls s) cs r [write_config h (config_flags OR m), read_conversion h])"
proof -
  let ?W = "write_config h (config_flags OR m)"
  from rd obtain r' s1 a where rc: "readChannel w (channel (get s)) s = Some (r', s1)"
    and s': "s' = put a s1" and r: "r = map_sum id (\<lambda>v. ()) r'"
    by (auto simp: read_input_def AnalogInput_read_def split: option.splits sum.splits)
  from readChannel_fields [OF rc] en put s'
  have "enabled s' \<and> i2cBus s' = Some h" by simp
  moreover from readChannel_cases [OF en rc] put s' r
  have "\<exists>cs. calls s' = calls s @ cs \<and> ran w (calls s) cs r [?W, read_conversion h]"
    by (auto simp: ran_def)
  ultimately show ?thesis by blast
qed

lemma read_input_ok:
  assumes "transport_ok w" and en: "enabled s" "i2cBus s = Some h" "mux (channel (get s)) = Some m"
    and put: "\<And>a s. calls (put a s) = calls s \<and> enabled (put a s) = enabled s \<and>
                      i2cBus (put a s) = i2cBus s"
  shows "\<exists>s'. read_input w get put s = Some (Inr (), s')"
  using readChannel_ok [OF assms(1) en]
  by (auto simp: read_input_def AnalogInput_read_def)

lemma read_input_wired:
  assumes "wired s"
  shows "read_input w input1 (\<lambda>a s. s\<lparr>input1 := a\<rparr>) s = Some (r, s') \<Longrightarrow> wired s'"
    and "read_input w input2 (\<lambda>a s. s\<lparr>input2 := a\<rparr>) s = Some (r, s') \<Longrightarrow> wired s'"
    and "read_input w input3 (\<lambda>a s. s\<lparr>input3 := a\<rparr>) s = Some (r, s') \<Longrightarrow> wired s'"
    and "read_input w input4 (\<lambda>a s. s\<lparr>input4 := a\<rparr>) s = Some (r, s') \<Longrightarrow> wired s'"
  using assms
  by (auto simp: read_input_def AnalogInput_read_def wired_def
           split: option.splits sum.splits dest!: readChannel_fields)

lemma mux_values:
  "mux (SafeInteger 0) = Some ADS1015_CONFIG_MUX_SINGLE_0"
  "mux (SafeInteger 1) = Some ADS1015_CONFIG_MUX_SINGLE_1"
  "mux (SafeInteger 2) = Some ADS1015_CONFIG_MUX_SINGLE_2"
  "mux (SafeInteger 3) = Some ADS1015_CONFIG_MUX_SINGLE_3"
  by (simp_all add: mux_def)

lemma read_ok:
  assumes ok: "transport_ok w" and "wired s" and "enabled s" and "i2cBus s = Some h"
  shows "\<exists>s'. read w s = Some (Inr (), s')"
proof -
  let ?Q = "\<lambda>s. wired s \<and> enabled s \<and> i2cBus s = Some h"
  have Q0: "?Q s" using assms by simp
  from read_input_ok [OF ok, of s h input1 _ "\<lambda>a s. s\<lparr>input1 := a\<rparr>"] Q0 mux_values
  obtain s1 where r1: "read_input w input1 (\<lambda>a s. s\<lparr>input1 := a\<rparr>) s = Some (Inr (), s1)"
    by (auto simp: wired_def)
  from read_input_step [of s h input1 _ "\<lambda>a s. s\<lparr>input1 := a\<rparr>" w "Inr ()" s1] Q0 mux_values
    read_input_wired(1) [OF _ r1] r1
  have Q1: "?Q s1" by (simp add: wired_def)
  from read_input_ok [OF ok, of s1 h input2 _ "\<lambda>a s. s\<lparr>input2 := a\<rparr>"] Q1 mux_values
  obtain s2 where r2: "read_input w input2 (\<lambda>a s. s\<lparr>input2 := a\<rparr>) s1 = Some (Inr (), s2)"
    by (auto simp: wired_def)
  from read_input_step [of s1 h input2 _ "\<lambda>a s. s\<lparr>input2 := a\<rparr>" w "Inr ()" s2] Q1 mux_values
    read_input_wired(2) [OF _ r2] r2
  have Q2: "?Q s2" by (simp add: wired_def)
  from read_input_ok [OF ok, of s2 h input3 _ "\<lambda>a s. s\<lparr>input3 := a\<rparr>"] Q2 mux_values
  obtain s3 where r3: "read_input w input3 (\<lambda>a s. s\<lparr>input3 := a\<rparr>) s2 = Some (Inr (), s3)"
    by (auto simp: wired_def)
  from read_input_step [of s2 h input3 _ "\<lambda>a s. s\<lparr>input3 := a\<rparr>" w "Inr ()" s3] Q2 mux_values
    read_input_wired(3) [OF _ r3] r3
  have Q3: "?Q s3" by (simp add: wired_def)
  from read_input_ok [OF ok, of s3 h input4 _ "\<lambda>a s. s\<lparr>input4 := a\<rparr>"] Q3 mux_values
  obtain s4 where r4: "read_input w input4 (\<lambda>a s. s\<lparr>input4 := a\<rparr>) s3 = Some (Inr (), s4)"
    by (auto simp: wired_def)
  from assms(3) r1 r2 r3 r4 have "read w s = Some (Inr (), s4)"
    by (simp add: read_def next_do_simps)
  then show ?thesis ..
qed

subsection \<open>read-all under a clock that advances\<close>








subsection \<open>read-all and the channel object: the claims\<close>

lemmas world_defs =
  write_fails_world_def healthy_world_def below_zero_world_def open_fails_world_def close_fails_world_def
  light_fails_world_def flaky_world_def

lemmas state_defs = enabled_service_def new_AnalogInputService_def new_AnalogInput_def

lemmas readChannel_run =
  readChannel_def mux_def invoke_def write_config_def read_conversion_def configBytes_def
  config_flags_def ADS1015_defs address_def busy_wait.simps delay_def decode_def

lemmas read_run =
  read_def next_do_def read_input_def AnalogInput_read_def readChannel_run

lemmas enable_run =
  enable_def enable_try_def open_bus_def disable_def disable_try_def close_bus_def
  andThen_def invoke_def assign_def



text \<open>
  Claim C7. When \<^verbatim>\<open>readChannel\<close> throws during \<^verbatim>\<open>AnalogInput.read()\<close>, the same error
  is thrown to the caller and the channel object is as it was; when it returns, the value
  is stored in \<^verbatim>\<open>currentValue\<close> and returned. \<^verbatim>\<open>readChannel\<close> itself never changes a
  channel object of the service.
\<close>

theorem AnalogInput_read_propagates:
  "(readChannel w (channel a) s = Some (Inl e, s') \<longrightarrow>
      AnalogInput_read w a s = Some (Inl e, a, s')) \<and>
   (readChannel w (channel a) s = Some (Inr v, s') \<longrightarrow>
      AnalogInput_read w a s = Some (Inr v, a\<lparr>currentValue := v\<rparr>, s') \<and>
      raw (a\<lparr>currentValue := v\<rparr>) = v) \<and>
   (readChannel w c s = Some (r, s') \<longrightarrow>
      input1 s' = input1 s \<and> input2 s' = input2 s \<and>
      input3 s' = input3 s \<and> input4 s' = input4 s)"
  using readChannel_fields [of w c s r s']
  by (simp add: AnalogInput_read_def raw_def)

theorem AnalogInput_read_propagates_witness:
  "readChannel healthy_world (SafeInteger 2) new_AnalogInputService = Some (Inl not_enabled, new_AnalogInputService) \<and>
   AnalogInput_read healthy_world \<lparr>channel = SafeInteger 2, currentValue = 512\<rparr> new_AnalogInputService =
     Some (Inl not_enabled, \<lparr>channel = SafeInteger 2, currentValue = 512\<rparr>, new_AnalogInputService) \<and>
   AnalogInput_read healthy_world \<lparr>channel = SafeInteger 2, currentValue = 512\<rparr> enabled_service =
     Some (Inr 2047, \<lparr>channel = SafeInteger 2, currentValue = 2047\<rparr>,
           enabled_service\<lparr>calls := [WriteI2cBlockSync 7 0x48 0x01 2 [0xE3, 0x83],
                                      ReadI2cBlockSync 7 0x48 0x00 2], ticks := 3\<rparr>)"
proof -
  have e: "readChannel healthy_world (SafeInteger 2) new_AnalogInputService =
             Some (Inl not_enabled, new_AnalogInputService)"
    by (simp add: readChannel_def state_defs)
  have v: "readChannel healthy_world (SafeInteger 2) enabled_service =
     Some (Inr 2047, enabled_service\<lparr>calls := [WriteI2cBlockSync 7 0x48 0x01 2 [0xE3, 0x83],
                                                ReadI2cBlockSync 7 0x48 0x00 2], ticks := 3\<rparr>)"
    by (simp add: readChannel_run world_defs state_defs)
  from AnalogInput_read_propagates
         [of healthy_world "\<lparr>channel = SafeInteger 2, currentValue = 512\<rparr>" new_AnalogInputService
             not_enabled new_AnalogInputService 0 "SafeInteger 2" "Inl not_enabled"]
       AnalogInput_read_propagates
         [of healthy_world "\<lparr>channel = SafeInteger 2, currentValue = 512\<rparr>" enabled_service
             not_enabled "enabled_service\<lparr>calls := [WriteI2cBlockSync 7 0x48 0x01 2 [0xE3, 0x83],
                                      ReadI2cBlockSync 7 0x48 0x00 2], ticks := 3\<rparr>" 2047 "SafeInteger 2" "Inr 2047"]
       e v
  show ?thesis by simp
qed

text \<open>
  Claim C2 says that \<^verbatim>\<open>currentValue\<close> stays within 0..2047 whatever two bytes a
  conversion gives, as the comments of \<^verbatim>\<open>readChannel\<close> and of the getter \<^verbatim>\<open>raw\<close> do. The
  code does not keep that range: the decoded value is any 12-bit number (lemma
  \<open>decode_range\<close>), and a conversion result of \<open>0xFFF0\<close> read on channel 0 of an
  enabled service is stored as 4095.
\<close>

theorem lastRaw_above_2047:
  "AnalogInput_read below_zero_world (new_AnalogInput (SafeInteger 0)) enabled_service =
     Some (Inr 4095, \<lparr>channel = SafeInteger 0, currentValue = 4095\<rparr>,
           enabled_service\<lparr>calls := [WriteI2cBlockSync 7 0x48 0x01 2 [0xC3, 0x83],
                                      ReadI2cBlockSync 7 0x48 0x00 2], ticks := 3\<rparr>)"
  by (simp add: AnalogInput_read_def readChannel_run world_defs state_defs)

lemma new_AnalogInput_raw: "raw (new_AnalogInput c) = 0"
  by (simp add: raw_def new_AnalogInput_def)

subsection \<open>enable and disable: the claims\<close>

text \<open>
  Claim C1, amended. \<^verbatim>\<open>disable()\<close> never throws: whatever is thrown inside its
  \<^verbatim>\<open>try\<close> block is logged with \<^verbatim>\<open>console.error\<close> and the method returns. When the close
  of the bus returns, or there is no bus to close, the service is left with
  \<^verbatim>\<open>enabled == false\<close> and no bus handle, also when a light call throws afterwards. When
  the close of the bus itself throws, only the log changes: the service stays enabled and
  keeps its handle.
\<close>

theorem disable_suppresses:
  "fst (disable w s) = Inr () \<and>
   (enabled s \<longrightarrow> fst (disable_try w s) = Some e \<longrightarrow>
      last (calls (snd (disable w s))) = ConsoleError ''Failed to disable AnalogInputService:'' e) \<and>
   (enabled s \<longrightarrow>
      i2cBus s = None \<or> (\<exists>h. i2cBus s = Some h \<and> throws w (calls s) (CloseSync h) = None) \<longrightarrow>
      \<not> enabled (snd (disable w s)) \<and> i2cBus (snd (disable w s)) = None) \<and>
   (enabled s \<longrightarrow> i2cBus s = Some h \<longrightarrow> throws w (calls s) (CloseSync h) = Some e \<longrightarrow>
      snd (disable w s) =
        s\<lparr>calls := calls s @
            [CloseSync h, ConsoleError ''Failed to disable AnalogInputService:'' e]\<rparr>)"
proof -
  have a: "fst (disable w s) = Inr ()" by (rule disable_returns)
  have b: "last (calls (snd (disable w s))) =
      ConsoleError ''Failed to disable AnalogInputService:'' e"
    if "enabled s" "fst (disable_try w s) = Some e"
    using that by (rule disable_logs)
  have c: "\<not> enabled (snd (disable w s)) \<and> i2cBus (snd (disable w s)) = None"
    if en: "enabled s"
      and bus: "i2cBus s = None \<or> (\<exists>h. i2cBus s = Some h \<and> throws w (calls s) (CloseSync h) = None)"
  proof (cases "i2cBus s")
    case None
    with en show ?thesis by (rule disable_without_handle)
  next
    case (Some h')
    with bus have "throws w (calls s) (CloseSync h') = None" by simp
    from disable_after_close [OF en Some this] obtain cs where
      "snd (disable w s) = s\<lparr>i2cBus := None, enabled := False, calls := calls s @ CloseSync h' # cs\<rparr>"
      by blast
    then show ?thesis by simp
  qed
  have d: "snd (disable w s) =
      s\<lparr>calls := calls s @
          [CloseSync h, ConsoleError ''Failed to disable AnalogInputService:'' e]\<rparr>"
    if "enabled s" "i2cBus s = Some h" "throws w (calls s) (CloseSync h) = Some e"
    using disable_close_throws [OF that] by simp
  from a b c d show ?thesis by blast
qed

theorem disable_suppresses_witness:
  "enabled enabled_service \<and> i2cBus enabled_service = Some 7 \<and>
   throws light_fails_world (calls enabled_service) (CloseSync 7) = None \<and>
   fst (disable_try light_fails_world enabled_service) = Some (Error ''light'') \<and>
   fst (disable light_fails_world enabled_service) = Inr () \<and>
   \<not> enabled (snd (disable light_fails_world enabled_service)) \<and>
   i2cBus (snd (disable light_fails_world enabled_service)) = None \<and>
   last (calls (snd (disable light_fails_world enabled_service))) =
     ConsoleError ''Failed to disable AnalogInputService:'' (Error ''light'')"
proof -
  have h: "enabled enabled_service" "i2cBus enabled_service = Some 7"
    "throws light_fails_world (calls enabled_service) (CloseSync 7) = None"
    by (simp_all add: state_defs world_defs)
  have t: "fst (disable_try light_fails_world enabled_service) = Some (Error ''light'')"
    by (simp add: disable_try_def close_bus_def andThen_def invoke_def assign_def
          state_defs world_defs)
  from disable_suppresses [of light_fails_world enabled_service "Error ''light''" 7] h t
  show ?thesis by simp
qed

text \<open>
  The claim C1 as it was stated fails where the close of the bus throws: the service is
  still enabled afterwards and still holds the bus.
\<close>

theorem disable_close_failure_stays_enabled:
  "throws close_fails_world (calls enabled_service) (CloseSync 7) = Some (Error ''EIO'') \<and>
   fst (disable close_fails_world enabled_service) = Inr () \<and>
   enabled (snd (disable close_fails_world enabled_service)) \<and>
   i2cBus (snd (disable close_fails_world enabled_service)) = Some 7"
  by (simp add: disable_def disable_try_def close_bus_def andThen_def invoke_def assign_def
        state_defs world_defs)

lemma enable_opens:
  assumes "\<not> enabled s"
  shows "opens (snd (enable w s)) = Suc (opens s)"
proof (cases "throws w (calls s) (OpenSync 1)")
  case None
  from enable_after_open [OF assms None] show ?thesis by (auto simp: opens_def)
next
  case (Some e)
  from enable_open_throws [OF assms Some] show ?thesis by (simp add: opens_def)
qed

lemma disable_closes:
  assumes "enabled s" and "i2cBus s = Some h"
  shows "closes (snd (disable w s)) = Suc (closes s)"
proof (cases "throws w (calls s) (CloseSync h)")
  case None
  from disable_after_close [OF assms None] show ?thesis by (auto simp: closes_def)
next
  case (Some e)
  from disable_close_throws [OF assms Some] show ?thesis by (simp add: closes_def)
qed

text \<open>
  Claim C9, amended. On a service that is not enabled, when the first \<^verbatim>\<open>openSync\<close>
  returns, any number of \<^verbatim>\<open>enable()\<close> calls in a row opens the bus exactly once, and every
  call after the first changes nothing. On an enabled service that holds a bus, when the
  first \<^verbatim>\<open>closeSync\<close> returns, any number of \<^verbatim>\<open>disable()\<close> calls in a row closes the
  bus exactly once, and every call after the first changes nothing. When \<^verbatim>\<open>openSync\<close>
  throws, only the log changes, the service stays not enabled, and the next \<^verbatim>\<open>enable()\<close>
  calls \<^verbatim>\<open>openSync\<close> again; when \<^verbatim>\<open>closeSync\<close> throws, only the log changes, the service
  stays enabled with its handle, and the next \<^verbatim>\<open>disable()\<close> calls \<^verbatim>\<open>closeSync\<close> again.
\<close>

theorem repeated_enable_disable:
  "(\<not> enabled s \<and> throws w (calls s) (OpenSync 1) = None \<longrightarrow>
      opens (enable_times (Suc n) w s) = Suc (opens s) \<and>
      enable_times (Suc n) w s = snd (enable w s) \<and>
      enable w (snd (enable w s)) = (Inr (), snd (enable w s))) \<and>
   (enabled s \<and> i2cBus s = Some h \<and> throws w (calls s) (CloseSync h) = None \<longrightarrow>
      closes (disable_times (Suc n) w s) = Suc (closes s) \<and>
      disable_times (Suc n) w s = snd (disable w s) \<and>
      disable w (snd (disable w s)) = (Inr (), snd (disable w s))) \<and>
   (\<not> enabled s \<and> throws w (calls s) (OpenSync 1) = Some e \<longrightarrow>
      snd (enable w s) =
        s\<lparr>calls := calls s @
            [OpenSync 1, ConsoleError ''Failed to enable AnalogInputService:'' e]\<rparr> \<and>
      \<not> enabled (snd (enable w s)) \<and>
      opens (snd (enable w (snd (enable w s)))) = Suc (Suc (opens s))) \<and>
   (enabled s \<and> i2cBus s = Some h \<and> throws w (calls s) (CloseSync h) = Some e \<longrightarrow>
      snd (disable w s) =
        s\<lparr>calls := calls s @
            [CloseSync h, ConsoleError ''Failed to disable AnalogInputService:'' e]\<rparr> \<and>
      enabled (snd (disable w s)) \<and> i2cBus (snd (disable w s)) = Some h \<and>
      closes (snd (disable w (snd (disable w s)))) = Suc (Suc (closes s)))"
proof -
  have a: "opens (enable_times (Suc n) w s) = Suc (opens s) \<and>
      enable_times (Suc n) w s = snd (enable w s) \<and>
      enable w (snd (enable w s)) = (Inr (), snd (enable w s))"
    if "\<not> enabled s" "throws w (calls s) (OpenSync 1) = None"
  proof -
    from enable_after_open [OF that] obtain cs where s1: "snd (enable w s) =
        s\<lparr>i2cBus := Some (opened w (calls s)), enabled := True,
          calls := calls s @ OpenSync 1 # cs\<rparr>" by blast
    then have en: "enabled (snd (enable w s))" by simp
    then have same: "enable_times (Suc n) w s = snd (enable w s)"
      by (simp add: enable_times_enabled)
    from en have "enable w (snd (enable w s)) = (Inr (), snd (enable w s))"
      by (rule enable_enabled)
    with same enable_opens [OF that(1), of w] show ?thesis by simp
  qed
  have b: "closes (disable_times (Suc n) w s) = Suc (closes s) \<and>
      disable_times (Suc n) w s = snd (disable w s) \<and>
      disable w (snd (disable w s)) = (Inr (), snd (disable w s))"
    if "enabled s" "i2cBus s = Some h" "throws w (calls s) (CloseSync h) = None"
  proof -
    from disable_after_close [OF that] obtain cs where s1: "snd (disable w s) =
        s\<lparr>i2cBus := None, enabled := False, calls := calls s @ CloseSync h # cs\<rparr>" by blast
    then have en: "\<not> enabled (snd (disable w s))" by simp
    then have same: "disable_times (Suc n) w s = snd (disable w s)"
      by (simp add: disable_times_disabled)
    from en have "disable w (snd (disable w s)) = (Inr (), snd (disable w s))"
      by (rule disable_disabled)
    with same disable_closes [OF that(1,2), of w] show ?thesis by simp
  qed
  have c: "snd (enable w s) =
        s\<lparr>calls := calls s @
            [OpenSync 1, ConsoleError ''Failed to enable AnalogInputService:'' e]\<rparr> \<and>
      \<not> enabled (snd (enable w s)) \<and>
      opens (snd (enable w (snd (enable w s)))) = Suc (Suc (opens s))"
    if "\<not> enabled s" "throws w (calls s) (OpenSync 1) = Some e"
  proof -
    from enable_open_throws [OF that] have s1: "snd (enable w s) =
        s\<lparr>calls := calls s @
            [OpenSync 1, ConsoleError ''Failed to enable AnalogInputService:'' e]\<rparr>" by simp
    with that(1) have off: "\<not> enabled (snd (enable w s))" by simp
    from enable_opens [OF off, of w] enable_opens [OF that(1), of w]
    have "opens (snd (enable w (snd (enable w s)))) = Suc (Suc (opens s))" by simp
    with s1 off show ?thesis by blast
  qed
  have d: "snd (disable w s) =
        s\<lparr>calls := calls s @
            [CloseSync h, ConsoleError ''Failed to disable AnalogInputService:'' e]\<rparr> \<and>
      enabled (snd (disable w s)) \<and> i2cBus (snd (disable w s)) = Some h \<and>
      closes (snd (disable w (snd (disable w s)))) = Suc (Suc (closes s))"
    if "enabled s" "i2cBus s = Some h" "throws w (calls s) (CloseSync h) = Some e"
  proof -
    from disable_close_throws [OF that] have s1: "snd (disable w s) =
        s\<lparr>calls := calls s @
            [CloseSync h, ConsoleError ''Failed to disable AnalogInputService:'' e]\<rparr>" by simp
    with that(1,2) have on: "enabled (snd (disable w s))" "i2cBus (snd (disable w s)) = Some h"
      by simp_all
    from disable_closes [OF on, of w] disable_closes [OF that(1,2), of w]
    have "closes (snd (disable w (snd (disable w s)))) = Suc (Suc (closes s))" by simp
    with s1 on show ?thesis by blast
  qed
  from a b c d show ?thesis by blast
qed

theorem repeated_enable_disable_witness:
  "\<not> enabled new_AnalogInputService \<and>
   throws healthy_world (calls new_AnalogInputService) (OpenSync 1) = None \<and>
   opens (enable_times 3 healthy_world new_AnalogInputService) = 1 \<and>
   enabled enabled_service \<and> i2cBus enabled_service = Some 7 \<and>
   throws healthy_world (calls enabled_service) (CloseSync 7) = None \<and>
   closes (disable_times 3 healthy_world enabled_service) = 1 \<and>
   throws open_fails_world (calls new_AnalogInputService) (OpenSync 1) = Some (Error ''ENOENT'') \<and>
   \<not> enabled (snd (enable open_fails_world new_AnalogInputService)) \<and>
   opens (snd (enable open_fails_world (snd (enable open_fails_world new_AnalogInputService)))) = 2 \<and>
   throws close_fails_world (calls enabled_service) (CloseSync 7) = Some (Error ''EIO'') \<and>
   enabled (snd (disable close_fails_world enabled_service)) \<and>
   closes (snd (disable close_fails_world (snd (disable close_fails_world enabled_service)))) = 2"
proof -
  have h: "\<not> enabled new_AnalogInputService"
    "throws healthy_world (calls new_AnalogInputService) (OpenSync 1) = None"
    "enabled enabled_service" "i2cBus enabled_service = Some 7"
    "throws healthy_world (calls enabled_service) (CloseSync 7) = None"
    "opens new_AnalogInputService = 0" "closes enabled_service = 0"
    "throws open_fails_world (calls new_AnalogInputService) (OpenSync 1) = Some (Error ''ENOENT'')"
    "throws close_fails_world (calls enabled_service) (CloseSync 7) = Some (Error ''EIO'')"
    by (simp_all add: state_defs world_defs opens_def closes_def)
  have three: "(3::nat) = Suc 2" by simp
  from repeated_enable_disable [of new_AnalogInputService healthy_world 2 7 "Error ''ENOENT''"]
       repeated_enable_disable [of enabled_service healthy_world 2 7 "Error ''EIO''"]
       repeated_enable_disable [of new_AnalogInputService open_fails_world 2 7 "Error ''ENOENT''"]
       repeated_enable_disable [of enabled_service close_fails_world 2 7 "Error ''EIO''"] h
  show ?thesis unfolding three by auto
qed

text \<open>
  The claim C9 as it was stated fails where \<^verbatim>\<open>openSync\<close> or \<^verbatim>\<open>closeSync\<close> throws: two
  \<^verbatim>\<open>enable()\<close> calls in a row open the bus twice, and two \<^verbatim>\<open>disable()\<close> calls in a row
  close it twice.
\<close>

theorem repeated_calls_retry:
  "throws open_fails_world (calls new_AnalogInputService) (OpenSync 1) = Some (Error ''ENOENT'') \<and>
   opens (enable_times 2 open_fails_world new_AnalogInputService) = 2 \<and>
   throws close_fails_world (calls enabled_service) (CloseSync 7) = Some (Error ''EIO'') \<and>
   closes (disable_times 2 close_fails_world enabled_service) = 2"
  by (simp add: numeral_2_eq_2 opens_def closes_def enable_run state_defs world_defs)

text \<open>
  Claim C10. When \<^verbatim>\<open>openSync\<close> returns during \<^verbatim>\<open>enable()\<close> and one of the light calls
  after it (\<^verbatim>\<open>on()\<close> of the three lights, then \<^verbatim>\<open>update()\<close>) throws, \<^verbatim>\<open>enable()\<close>
  throws that error, and the service is left enabled with the bus open: a later
  \<^verbatim>\<open>enable()\<close> does nothing, and a later \<^verbatim>\<open>read()\<close> returns on a transport that works.
  Only when \<^verbatim>\<open>openSync\<close> itself throws is the service left as it was, not enabled and
  with the handle it had.
\<close>

theorem enable_partial_state:
  "(\<not> enabled s \<and> throws w (calls s) (OpenSync 1) = None \<and>
    first_throw w (calls s @ [OpenSync 1]) [LightOn 1, LightOn 2, LightOn 3, LightUpdate]
      = Some e \<longrightarrow>
      fst (enable w s) = Inl e \<and>
      enabled (snd (enable w s)) \<and> i2cBus (snd (enable w s)) = Some (opened w (calls s)) \<and>
      enable w (snd (enable w s)) = (Inr (), snd (enable w s)) \<and>
      (wired s \<and> transport_ok w \<longrightarrow> (\<exists>s'. read w (snd (enable w s)) = Some (Inr (), s')))) \<and>
   (\<not> enabled s \<and> throws w (calls s) (OpenSync 1) = Some e \<longrightarrow>
      fst (enable w s) = Inl e \<and>
      \<not> enabled (snd (enable w s)) \<and> i2cBus (snd (enable w s)) = i2cBus s)"
proof -
  have light: "fst (enable w s) = Inl e \<and>
      enabled (snd (enable w s)) \<and> i2cBus (snd (enable w s)) = Some (opened w (calls s)) \<and>
      enable w (snd (enable w s)) = (Inr (), snd (enable w s)) \<and>
      (wired s \<and> transport_ok w \<longrightarrow> (\<exists>s'. read w (snd (enable w s)) = Some (Inr (), s')))"
    if a1: "\<not> enabled s" and a2: "throws w (calls s) (OpenSync 1) = None"
      and a3: "first_throw w (calls s @ [OpenSync 1])
                 [LightOn 1, LightOn 2, LightOn 3, LightUpdate] = Some e"
  proof -
    from enable_after_open [OF a1 a2] a3 obtain cs
      where s1: "snd (enable w s) =
        s\<lparr>i2cBus := Some (opened w (calls s)), enabled := True,
          calls := calls s @ OpenSync 1 # cs\<rparr>" and r: "fst (enable w s) = Inl e"
      by (auto simp del: first_throw.simps)
    from s1 have en: "enabled (snd (enable w s))"
      "i2cBus (snd (enable w s)) = Some (opened w (calls s))" by simp_all
    have "wired (snd (enable w s)) = wired s" unfolding s1 by (simp add: wired_def)
    with read_ok [OF _ _ en] have "wired s \<and> transport_ok w \<longrightarrow>
        (\<exists>s'. read w (snd (enable w s)) = Some (Inr (), s'))" by blast
    with r en enable_enabled [OF en(1)] show ?thesis by blast
  qed
  have nothing_opened: "fst (enable w s) = Inl e \<and>
      \<not> enabled (snd (enable w s)) \<and> i2cBus (snd (enable w s)) = i2cBus s"
    if b: "\<not> enabled s" "throws w (calls s) (OpenSync 1) = Some e"
    using enable_open_throws [OF b] b(1) by simp
  from light nothing_opened show ?thesis by blast
qed

theorem enable_partial_state_witness:
  "\<not> enabled new_AnalogInputService \<and>
   throws light_fails_world (calls new_AnalogInputService) (OpenSync 1) = None \<and>
   first_throw light_fails_world [OpenSync 1] [LightOn 1, LightOn 2, LightOn 3, LightUpdate]
     = Some (Error ''light'') \<and>
   wired new_AnalogInputService \<and> transport_ok light_fails_world \<and>
   fst (enable light_fails_world new_AnalogInputService) = Inl (Error ''light'') \<and>
   enabled (snd (enable light_fails_world new_AnalogInputService)) \<and>
   i2cBus (snd (enable light_fails_world new_AnalogInputService)) = Some 7 \<and>
   (\<exists>s'. read light_fails_world (snd (enable light_fails_world new_AnalogInputService))
            = Some (Inr (), s')) \<and>
   throws open_fails_world (calls new_AnalogInputService) (OpenSync 1) = Some (Error ''ENOENT'') \<and>
   fst (enable open_fails_world new_AnalogInputService) = Inl (Error ''ENOENT'') \<and>
   \<not> enabled (snd (enable open_fails_world new_AnalogInputService)) \<and>
   i2cBus (snd (enable open_fails_world new_AnalogInputService)) = None"
proof -
  have h: "\<not> enabled new_AnalogInputService"
    "throws light_fails_world (calls new_AnalogInputService) (OpenSync 1) = None"
    "wired new_AnalogInputService" "calls new_AnalogInputService = []"
    "opened light_fails_world [] = 7" "i2cBus new_AnalogInputService = None"
    "throws open_fails_world [] (OpenSync 1) = Some (Error ''ENOENT'')"
    by (simp_all add: state_defs world_defs wired_def)
  have f: "first_throw light_fails_world (calls new_AnalogInputService @ [OpenSync 1])
             [LightOn 1, LightOn 2, LightOn 3, LightUpdate] = Some (Error ''light'')"
    by (simp add: state_defs world_defs)
  have "clock_advances light_fails_world t" for t
    unfolding clock_advances_def by (rule exI [of _ 1]) (simp add: world_defs delay_def)
  then have ok: "transport_ok light_fails_world"
    by (simp add: transport_ok_def) (simp add: world_defs)
  from enable_partial_state [of new_AnalogInputService light_fails_world "Error ''light''"]
       enable_partial_state [of new_AnalogInputService open_fails_world "Error ''ENOENT''"]
       h ok f
  show ?thesis by simp
qed

end
